theory Spec2Isabelle
  imports Complex_Main "HOL-Library.Log_Nat" "HOL-Library.Sublist" "HOL-Library.Monad_Syntax"
begin

section \<open>JavaScript numbers\<close>

text \<open>
  A JavaScript Number is an IEEE 754 binary64 value. A finite value is represented by
  the rational it denotes; every arithmetic operation computes the exact rational
  result and rounds it to the nearest binary64 value, ties to the even significand
  (\<open>round64\<close>). The sign of zero is not represented: both zeros are \<open>Fin 0\<close>. No
  operation of \<^verbatim>\<open>03-date-tasks.js\<close> observes that sign (it never divides by a
  variable, \<^verbatim>\<open>-0 === 0\<close> holds, and \<^verbatim>\<open>-0\<close> prints as \<^verbatim>\<open>0\<close>).
\<close>

datatype number = NaN | PosInfinity | NegInfinity | Fin rat

definition pow2 :: "int \<Rightarrow> rat" where
  "pow2 e = (if 0 \<le> e then 2 ^ nat e else 1 / 2 ^ nat (- e))"

text \<open>\<open>ilog2 a\<close> is the binary exponent of a positive rational: \<open>2 ^ ilog2 a \<le> a < 2 ^ (ilog2 a + 1)\<close>.\<close>

definition ilog2 :: "rat \<Rightarrow> int" where
  "ilog2 a = (if 1 \<le> a then bitlen \<lfloor>a\<rfloor> - 1 else - bitlen (\<lceil>1 / a\<rceil> - 1))"

definition round_half_even :: "rat \<Rightarrow> int" where
  "round_half_even q =
     (let f = \<lfloor>q\<rfloor>; r = q - of_int f
      in if r < 1 / 2 then f else if 1 / 2 < r then f + 1 else if even f then f else f + 1)"

text \<open>
  Rounding to binary64: 53 significant bits, the least exponent of the last place is
  \<open>-1074\<close> (subnormal numbers), and a result of magnitude \<open>2 ^ 1024\<close> or more is an
  infinity.
\<close>

definition exponent64 :: "rat \<Rightarrow> int" where
  "exponent64 a = max (ilog2 a - 52) (- 1074)"

text \<open>The magnitude \<open>a > 0\<close> rounded to a multiple of \<open>2 ^ exponent64 a\<close>.\<close>

definition round_magnitude :: "rat \<Rightarrow> rat" where
  "round_magnitude a = of_int (round_half_even (a / pow2 (exponent64 a))) * pow2 (exponent64 a)"

definition round64 :: "rat \<Rightarrow> number" where
  "round64 x =
     (if x = 0 then Fin 0
      else let r = round_magnitude \<bar>x\<bar>
           in if pow2 1024 \<le> r then (if 0 < x then PosInfinity else NegInfinity)
              else Fin (sgn x * r))"

fun js_neg :: "number \<Rightarrow> number" where
  "js_neg NaN = NaN"
| "js_neg PosInfinity = NegInfinity"
| "js_neg NegInfinity = PosInfinity"
| "js_neg (Fin x) = Fin (- x)"

text \<open>The sign of a number that is not NaN, as \<open>-1\<close>, \<open>0\<close> or \<open>1\<close>.\<close>

fun num_sgn :: "number \<Rightarrow> int" where
  "num_sgn NaN = 0"
| "num_sgn PosInfinity = 1"
| "num_sgn NegInfinity = - 1"
| "num_sgn (Fin x) = (if x = 0 then 0 else if 0 < x then 1 else - 1)"

definition signed_infinity :: "int \<Rightarrow> number" where
  "signed_infinity s = (if s = 0 then NaN else if 0 < s then PosInfinity else NegInfinity)"

text \<open>\<^verbatim>\<open>a + b\<close> on numbers.\<close>

fun js_add :: "number \<Rightarrow> number \<Rightarrow> number" where
  "js_add (Fin x) (Fin y) = round64 (x + y)"
| "js_add NaN b = NaN"
| "js_add a NaN = NaN"
| "js_add PosInfinity NegInfinity = NaN"
| "js_add NegInfinity PosInfinity = NaN"
| "js_add PosInfinity b = PosInfinity"
| "js_add NegInfinity b = NegInfinity"
| "js_add (Fin x) b = b"

text \<open>\<^verbatim>\<open>a - b\<close>.\<close>

definition js_sub :: "number \<Rightarrow> number \<Rightarrow> number" where
  "js_sub a b = js_add a (js_neg b)"

text \<open>\<^verbatim>\<open>a * b\<close>: an infinity times zero is NaN.\<close>

fun js_mul :: "number \<Rightarrow> number \<Rightarrow> number" where
  "js_mul (Fin x) (Fin y) = round64 (x * y)"
| "js_mul NaN b = NaN"
| "js_mul a NaN = NaN"
| "js_mul a b = signed_infinity (num_sgn a * num_sgn b)"

text \<open>
  \<^verbatim>\<open>a / b\<close>. With the zero unsigned, a division by zero takes the zero as \<open>+0\<close>; the
  module only divides by the non-zero literals 1000, 60000, 3600000, 60, 12 and 180.
\<close>

fun js_div :: "number \<Rightarrow> number \<Rightarrow> number" where
  "js_div (Fin x) (Fin y) = (if y = 0 then signed_infinity (num_sgn (Fin x)) else round64 (x / y))"
| "js_div NaN b = NaN"
| "js_div a NaN = NaN"
| "js_div (Fin x) b = Fin 0"
| "js_div a (Fin y) = signed_infinity (num_sgn a * (if 0 \<le> y then 1 else - 1))"
| "js_div a b = NaN"

text \<open>
  \<^verbatim>\<open>a % b\<close>: the remainder of the division truncated towards zero, with the sign of
  the dividend. It is exact (never rounded).
\<close>

definition truncate_rat :: "rat \<Rightarrow> int" where
  "truncate_rat q = (if 0 \<le> q then \<lfloor>q\<rfloor> else \<lceil>q\<rceil>)"

fun js_rem :: "number \<Rightarrow> number \<Rightarrow> number" where
  "js_rem (Fin x) (Fin y) = (if y = 0 then NaN else Fin (x - y * of_int (truncate_rat (x / y))))"
| "js_rem NaN b = NaN"
| "js_rem a NaN = NaN"
| "js_rem (Fin x) b = Fin x"
| "js_rem a b = NaN"

text \<open>\<^verbatim>\<open>Math.abs\<close>.\<close>

fun Math_abs :: "number \<Rightarrow> number" where
  "Math_abs NaN = NaN"
| "Math_abs PosInfinity = PosInfinity"
| "Math_abs NegInfinity = PosInfinity"
| "Math_abs (Fin x) = Fin \<bar>x\<bar>"

text \<open>\<^verbatim>\<open>a < b\<close>, \<^verbatim>\<open>a > b\<close>, and \<^verbatim>\<open>a === b\<close> (on two numbers \<^verbatim>\<open>a == b\<close> is the same
  comparison): every comparison with NaN is false.\<close>

fun js_lt :: "number \<Rightarrow> number \<Rightarrow> bool" where
  "js_lt (Fin x) (Fin y) = (x < y)"
| "js_lt NaN b = False"
| "js_lt a NaN = False"
| "js_lt PosInfinity b = False"
| "js_lt a NegInfinity = False"
| "js_lt a b = True"

definition js_gt :: "number \<Rightarrow> number \<Rightarrow> bool" where
  "js_gt a b = js_lt b a"

fun js_eq :: "number \<Rightarrow> number \<Rightarrow> bool" where
  "js_eq NaN b = False"
| "js_eq a NaN = False"
| "js_eq a b = (a = b)"

text \<open>\<^verbatim>\<open>Math.PI\<close>: the binary64 value nearest to \<open>\<pi>\<close>, \<open>884279719003555 / 2 ^ 48\<close>.\<close>

definition Math_PI :: number where
  "Math_PI = Fin (884279719003555 / 281474976710656)"

section \<open>Numbers as strings\<close>

definition digit_char :: "nat \<Rightarrow> char" where
  "digit_char d = ''0123456789'' ! d"

fun digits_of_nat :: "nat \<Rightarrow> string" where
  "digits_of_nat n =
     (if n < 10 then [digit_char n] else digits_of_nat (n div 10) @ [digit_char (n mod 10)])"

declare digits_of_nat.simps [simp del]

text \<open>
  \<^verbatim>\<open>n.toString()\<close>, and the conversion of a number inside a template literal. An
  integral value below \<open>10 ^ 21\<close> in magnitude prints as its decimal digits. The
  shortest round-trip decimal of a non-integral value and the exponent notation from
  \<open>10 ^ 21\<close> on are not modelled: the result is \<open>None\<close> there.
\<close>

definition NumberToString :: "number \<Rightarrow> string option" where
  "NumberToString n =
     (case n of
        NaN \<Rightarrow> Some ''NaN''
      | PosInfinity \<Rightarrow> Some ''Infinity''
      | NegInfinity \<Rightarrow> Some ''-Infinity''
      | Fin x \<Rightarrow>
          if of_int \<lfloor>x\<rfloor> = x \<and> \<bar>x\<bar> < 10 ^ 21
          then Some ((if x < 0 then ''-'' else []) @ digits_of_nat (nat \<lfloor>\<bar>x\<bar>\<rfloor>))
          else None)"

text \<open>The variables \<^verbatim>\<open>hours\<close>, \<^verbatim>\<open>minutes\<close>, \<^verbatim>\<open>seconds\<close> and \<^verbatim>\<open>ms\<close> of
  \<^verbatim>\<open>timeSpanToString\<close> hold a number first and may be assigned a string later.\<close>

datatype jsval = Num number | Str string

fun ToString :: "jsval \<Rightarrow> string option" where
  "ToString (Str s) = Some s"
| "ToString (Num n) = NumberToString n"

text \<open>\<^verbatim>\<open>p + n.toString()\<close> for a string \<open>p\<close> and a number \<open>n\<close>.\<close>

definition concat_toString :: "string \<Rightarrow> number \<Rightarrow> jsval option" where
  "concat_toString p n = map_option (\<lambda>s. Str (p @ s)) (NumberToString n)"

text \<open>\<^verbatim>\<open>Number.parseFloat(n)\<close> on a number converts it to a string and parses the string:
  the number itself (the string of a number denotes that number).\<close>

definition Number_parseFloat :: "number \<Rightarrow> number" where
  "Number_parseFloat n = n"

section \<open>Strings and the regular expressions of the module\<close>

text \<open>
  The module uses three patterns: \<^verbatim>\<open>'GMT'\<close> (a string, which \<^verbatim>\<open>search\<close> turns into a
  regular expression), \<^verbatim>\<open>/GMT\+[0-9]{4}$/\<close> and \<^verbatim>\<open>/GMT$/\<close>. A pattern is a sequence
  of atoms: a literal character, the class \<^verbatim>\<open>[0-9]\<close>, and the assertion \<^verbatim>\<open>$\<close> (end of
  input; no pattern has the multiline flag). \<^verbatim>\<open>[0-9]{4}\<close> is four atoms \<^verbatim>\<open>[0-9]\<close>.
\<close>

datatype atom = Lit char | Digit | EndOfInput

definition is_digit :: "char \<Rightarrow> bool" where
  "is_digit c = (c \<in> set ''0123456789'')"

text \<open>Does the pattern match at the start of the string?\<close>

fun match_here :: "atom list \<Rightarrow> string \<Rightarrow> bool" where
  "match_here [] s = True"
| "match_here (EndOfInput # p) s = (s = [] \<and> match_here p s)"
| "match_here (Lit c # p) [] = False"
| "match_here (Lit c # p) (x # s) = (x = c \<and> match_here p s)"
| "match_here (Digit # p) [] = False"
| "match_here (Digit # p) (x # s) = (is_digit x \<and> match_here p s)"

text \<open>The index of the first match at or after position \<open>i\<close> (the string is the rest of
  the input from \<open>i\<close> on), \<open>-1\<close> when there is none.\<close>

fun search_from :: "atom list \<Rightarrow> string \<Rightarrow> int \<Rightarrow> int" where
  "search_from p [] i = (if match_here p [] then i else - 1)"
| "search_from p (x # s) i = (if match_here p (x # s) then i else search_from p s (i + 1))"

text \<open>\<^verbatim>\<open>regexp.test(s)\<close> for a pattern without flags.\<close>

definition RegExp_test :: "atom list \<Rightarrow> string \<Rightarrow> bool" where
  "RegExp_test p s = (search_from p s 0 \<noteq> - 1)"

text \<open>\<^verbatim>\<open>s.search(w)\<close> for a string \<open>w\<close> without metacharacters.\<close>

definition String_search :: "string \<Rightarrow> string \<Rightarrow> int" where
  "String_search s w = search_from (map Lit w) s 0"

section \<open>Dates\<close>

text \<open>
  A Date object holds a time value: an integral number of milliseconds since the
  epoch, or NaN (an invalid date). \<^verbatim>\<open>new Date(d)\<close> on a Date is a new object with the
  same time value.
\<close>

datatype date = InvalidDate | Date int

definition NewDate :: "date \<Rightarrow> date" where
  "NewDate d = d"

fun getTime :: "date \<Rightarrow> number" where
  "getTime InvalidDate = NaN"
| "getTime (Date t) = Fin (of_int t)"

text \<open>\<^verbatim>\<open>getUTCHours\<close> and \<^verbatim>\<open>getUTCMinutes\<close>: the hour of the day and the minute of the
  hour of the time value.\<close>

fun getUTCHours :: "date \<Rightarrow> number" where
  "getUTCHours InvalidDate = NaN"
| "getUTCHours (Date t) = Fin (of_int ((t div 3600000) mod 24))"

fun getUTCMinutes :: "date \<Rightarrow> number" where
  "getUTCMinutes InvalidDate = NaN"
| "getUTCMinutes (Date t) = Fin (of_int ((t div 60000) mod 60))"

text \<open>
  \<^verbatim>\<open>getFullYear\<close> is the calendar year of the time value in the local time zone of the
  environment. That zone is not part of the module: \<open>local_year\<close>, the year of a time
  value in the local zone, is a parameter.
\<close>

fun getFullYear :: "(int \<Rightarrow> int) \<Rightarrow> date \<Rightarrow> number" where
  "getFullYear local_year InvalidDate = NaN"
| "getFullYear local_year (Date t) = Fin (of_int (local_year t))"

section \<open>The functions of \<^verbatim>\<open>03-date-tasks.js\<close>\<close>

text \<open>
  \<^verbatim>\<open>Date.parse\<close> is the platform's parser; it is the parameter \<open>DateParse\<close>, and its
  outcome (a number, or whatever else the platform does) is the outcome of the call.
\<close>

definition parseDataFromRfc2822 :: "(string \<Rightarrow> 'r) \<Rightarrow> string \<Rightarrow> 'r" where
  "parseDataFromRfc2822 DateParse value =
     (let value' =
        (if String_search value ''GMT'' \<noteq> - 1
            \<and> \<not> RegExp_test (map Lit ''GMT+'' @ replicate 4 Digit @ [EndOfInput]) value
            \<and> \<not> RegExp_test (map Lit ''GMT'' @ [EndOfInput]) value
         then value @ ''00'' else value)
      in DateParse value')"

definition parseDataFromIso8601 :: "(string \<Rightarrow> 'r) \<Rightarrow> string \<Rightarrow> 'r" where
  "parseDataFromIso8601 DateParse value = DateParse value"

definition isLeapYear :: "(int \<Rightarrow> int) \<Rightarrow> date \<Rightarrow> bool" where
  "isLeapYear local_year date =
     (let thisDate = NewDate date;
          year = getFullYear local_year thisDate
      in if js_eq (js_rem year (Fin 400)) (Fin 0) then True
         else if \<not> js_eq (js_rem year (Fin 100)) (Fin 0) \<and> js_eq (js_rem year (Fin 4)) (Fin 0)
         then True
         else False)"

text \<open>
  The branch of the \<^verbatim>\<open>if (ms === 0) ... else if (ms < 100) ... else if (ms < 10) ...\<close>
  chain of \<^verbatim>\<open>timeSpanToString\<close> that runs (\<open>MsOther\<close>: none of them).
\<close>

datatype ms_branch = MsZero | MsBelow100 | MsBelow10 | MsOther

definition ms_branch :: "number \<Rightarrow> ms_branch" where
  "ms_branch ms =
     (if js_eq ms (Fin 0) then MsZero
      else if js_lt ms (Fin 100) then MsBelow100
      else if js_lt ms (Fin 10) then MsBelow10
      else MsOther)"

definition timeSpanToString :: "date \<Rightarrow> date \<Rightarrow> string option" where
  "timeSpanToString startDate endDate =
     (let HOUR_MS = Fin 3600000;
          MINUTE_MS = Fin 60000;
          SECOND_MS = Fin 1000;
          start = NewDate startDate;
          end' = NewDate endDate;
          span = js_sub (getTime end') (getTime start);
          ms = js_rem span SECOND_MS;
          seconds = js_div (js_sub (js_rem span MINUTE_MS) ms) SECOND_MS;
          minutes =
            js_div (js_sub (js_sub (js_rem span HOUR_MS) (js_mul seconds SECOND_MS)) ms) MINUTE_MS;
          hours = js_div (js_sub span (js_rem span HOUR_MS)) HOUR_MS;
          hours1 = (if js_eq hours (Fin 0) then Some (Str ''00'')
                    else if js_lt hours (Fin 10) then concat_toString ''0'' hours
                    else Some (Num hours));
          minutes1 = (if js_eq minutes (Fin 0) then Some (Str ''00'')
                      else if js_lt minutes (Fin 10) then concat_toString ''0'' minutes
                      else Some (Num minutes));
          seconds1 = (if js_eq seconds (Fin 0) then Some (Str ''00'')
                      else if js_lt seconds (Fin 10) then concat_toString ''0'' seconds
                      else Some (Num seconds));
          (hours2, ms1) =
            (case ms_branch ms of
               MsZero \<Rightarrow> (hours1, Some (Str ''000''))
             | MsBelow100 \<Rightarrow> (concat_toString ''0'' ms, Some (Num ms))
             | MsBelow10 \<Rightarrow> (concat_toString ''00'' ms, Some (Num ms))
             | MsOther \<Rightarrow> (hours1, Some (Num ms)))
      in do {
           h \<leftarrow> Option.bind hours2 ToString;
           m \<leftarrow> Option.bind minutes1 ToString;
           s \<leftarrow> Option.bind seconds1 ToString;
           l \<leftarrow> Option.bind ms1 ToString;
           Some (h @ '':'' @ m @ '':'' @ s @ ''.'' @ l)
         })"

definition angleBetweenClockHands :: "date \<Rightarrow> number" where
  "angleBetweenClockHands date =
     (let hours = Number_parseFloat (getUTCHours date);
          minutes = Number_parseFloat (getUTCMinutes date);
          minutesArrowAngle = js_div (js_mul minutes (Fin 360)) (Fin 60);
          hoursArrowAngle =
            js_div (js_mul (js_add (js_rem hours (Fin 12)) (js_div minutes (Fin 60))) (Fin 360))
              (Fin 12);
          angle = Math_abs (js_sub hoursArrowAngle minutesArrowAngle);
          angle' = (if js_gt angle (Fin 180) then js_sub (Fin 360) angle else angle)
      in js_div (js_mul angle' Math_PI) (Fin 180))"

section \<open>The claims of the specification, in its own words\<close>

text \<open>
  The specification's condition for appending \<^verbatim>\<open>00\<close>: the string contains \<^verbatim>\<open>GMT\<close>,
  \<^verbatim>\<open>GMT\<close> is not followed by a four-digit numeric offset, positive or negative, and
  the string does not end in \<^verbatim>\<open>GMT\<close>.
\<close>

definition spec_has_numeric_offset :: "string \<Rightarrow> bool" where
  "spec_has_numeric_offset value =
     (\<exists>sg d. (sg = CHR ''+'' \<or> sg = CHR ''-'') \<and> length d = 4 \<and> list_all is_digit d
        \<and> sublist (''GMT'' @ sg # d) value)"

definition spec_rfc2822_argument :: "string \<Rightarrow> string" where
  "spec_rfc2822_argument value =
     (if sublist ''GMT'' value \<and> \<not> spec_has_numeric_offset value \<and> \<not> suffix ''GMT'' value
      then value @ ''00'' else value)"

text \<open>
  The specification's clock-hand algorithm in exact arithmetic: the minute hand at
  \<open>m \<times> 6\<close> degrees, the hour hand at \<open>((h mod 12) + m / 60) \<times> 30\<close> degrees, their
  absolute difference, replaced by 360 minus itself when it exceeds 180, and the
  conversion to radians by the factor \<open>\<pi> / 180\<close>.
\<close>

definition spec_angle_degrees :: "int \<Rightarrow> int \<Rightarrow> rat" where
  "spec_angle_degrees h m =
     (let minute_hand = of_int m * 6;
          hour_hand = (of_int (h mod 12) + of_int m / 60) * 30;
          d = \<bar>hour_hand - minute_hand\<bar>
      in if 180 < d then 360 - d else d)"

definition spec_clock_angle :: "int \<Rightarrow> int \<Rightarrow> real" where
  "spec_clock_angle h m = of_rat (spec_angle_degrees h m) * (pi / 180)"

text \<open>What a call of the platform's parser does: it throws, or it returns a number.\<close>

datatype exception = Exception string



section \<open>Evaluation of the number operations\<close>

lemma bitlen_numeral_simps:
  "bitlen 1 = 1"
  "bitlen (numeral (Num.Bit0 n)) = bitlen (numeral n) + 1"
  "bitlen (numeral (Num.Bit1 n)) = bitlen (numeral n) + 1"
  by (subst compute_bitlen; simp)+

lemma floor_rat_numeral:
  "\<lfloor>numeral a / numeral b :: rat\<rfloor> = numeral a div numeral b"
  using floor_divide_of_int_eq [of "numeral a" "numeral b", where ?'a = rat] by simp

lemma ceiling_rat_numeral:
  "\<lceil>numeral a / numeral b :: rat\<rceil> = - ((- numeral a) div numeral b)"
  using ceiling_divide_eq_div [of "numeral a" "numeral b", where ?'a = rat] by simp

lemma floor_rat_one_numeral:
  "\<lfloor>1 / numeral b :: rat\<rfloor> = 1 div numeral b"
  using floor_divide_of_int_eq [of 1 "numeral b", where ?'a = rat] by simp

lemma ceiling_rat_one_numeral:
  "\<lceil>1 / numeral b :: rat\<rceil> = - ((- 1) div numeral b)"
  using ceiling_divide_eq_div [of 1 "numeral b", where ?'a = rat] by simp

lemma floor_rat_neg_numeral:
  "\<lfloor>- (numeral a / numeral b) :: rat\<rfloor> = (- numeral a) div numeral b"
  using floor_divide_of_int_eq [of "- numeral a" "numeral b", where ?'a = rat] by simp

lemma ceiling_rat_neg_numeral:
  "\<lceil>- (numeral a / numeral b) :: rat\<rceil> = - (numeral a div numeral b)"
  using ceiling_divide_eq_div [of "- numeral a" "numeral b", where ?'a = rat] by simp

lemma floor_rat_neg_one_numeral:
  "\<lfloor>- (1 / numeral b) :: rat\<rfloor> = (- 1) div numeral b"
  using floor_divide_of_int_eq [of "- 1" "numeral b", where ?'a = rat] by simp

lemma ceiling_rat_neg_one_numeral:
  "\<lceil>- (1 / numeral b) :: rat\<rceil> = - (1 div numeral b)"
  using ceiling_divide_eq_div [of "- 1" "numeral b", where ?'a = rat] by simp

lemmas round64_eval = round64_def round_magnitude_def exponent64_def ilog2_def
  round_half_even_def pow2_def Let_def
  bitlen_numeral_simps floor_rat_numeral ceiling_rat_numeral
  floor_rat_one_numeral ceiling_rat_one_numeral floor_rat_neg_numeral
  ceiling_rat_neg_numeral floor_rat_neg_one_numeral ceiling_rat_neg_one_numeral

lemmas timeSpan_eval = timeSpanToString_def NewDate_def js_sub_def truncate_rat_def
  round64_eval NumberToString_def concat_toString_def ms_branch_def digits_of_nat.simps
  digit_char_def

section \<open>Rounding to binary64: monotonicity, error, exact integers\<close>

lemma pow2_powi: "pow2 e = 2 powi e"
  unfolding pow2_def power_int_def by (simp add: power_one_over [symmetric] inverse_eq_divide)

lemma pow2_pos [simp]: "0 < pow2 e"
  by (simp add: pow2_powi)

lemma pow2_nonneg [simp]: "0 \<le> pow2 e"
  using pow2_pos [of e] by linarith

lemma pow2_neq_0 [simp]: "pow2 e \<noteq> 0"
  using pow2_pos [of e] by linarith

lemma pow2_52: "pow2 52 = 4503599627370496" and pow2_53: "pow2 53 = 9007199254740992"
  by (simp_all add: pow2_def)

lemma pow2_add: "pow2 (a + b) = pow2 a * pow2 b"
  by (simp add: pow2_powi power_int_add)

lemma pow2_mono: "a \<le> b \<Longrightarrow> pow2 a \<le> pow2 b"
  unfolding pow2_powi by (rule power_int_increasing) simp_all

lemma pow2_nat: "0 \<le> k \<Longrightarrow> pow2 k = 2 ^ nat k"
  by (simp add: pow2_def)

lemma pow2_neg: "pow2 (- k) = 1 / pow2 k"
  by (simp add: pow2_powi power_int_minus divide_inverse)

lemma bitlen_ge_1: "0 < n \<Longrightarrow> 1 \<le> bitlen n"
  by (simp add: bitlen_alt_def)

lemma ilog2_lower:
  assumes "0 < a"
  shows "pow2 (ilog2 a) \<le> a"
proof (cases "1 \<le> a")
  case True
  define n where "n = \<lfloor>a\<rfloor>"
  have n: "0 < n" using True by (simp add: n_def)
  have "(2::rat) ^ nat (bitlen n - 1) \<le> of_int n" using bitlen_bounds [OF n] by simp
  also have "\<dots> \<le> a" by (simp add: n_def)
  finally show ?thesis using True bitlen_ge_1 [OF n] by (simp add: ilog2_def n_def pow2_nat)
next
  case False
  define b where "b = 1 / a"
  define n where "n = \<lceil>b\<rceil> - 1"
  have b: "1 < b" using False assms by (simp add: b_def)
  have n: "0 < n" using b by (simp add: n_def)
  have "n + 1 \<le> 2 ^ nat (bitlen n)" using bitlen_bounds [OF n] by simp
  then have "(of_int (n + 1) :: rat) \<le> 2 ^ nat (bitlen n)"
    by (simp only: of_int_le_numeral_power_cancel_iff)
  moreover have "b \<le> of_int (n + 1)" by (simp add: n_def)
  ultimately have "b \<le> 2 ^ nat (bitlen n)" by linarith
  then have "b \<le> pow2 (bitlen n)" using bitlen_ge_1 [OF n] by (simp add: pow2_nat)
  then have "1 / pow2 (bitlen n) \<le> 1 / b" using b by (simp add: frac_le)
  then show ?thesis using False assms by (simp add: ilog2_def pow2_neg b_def n_def)
qed

lemma ilog2_upper:
  assumes "0 < a"
  shows "a < pow2 (ilog2 a + 1)"
proof (cases "1 \<le> a")
  case True
  define n where "n = \<lfloor>a\<rfloor>"
  have n: "0 < n" using True by (simp add: n_def)
  have "n + 1 \<le> 2 ^ nat (bitlen n)" using bitlen_bounds [OF n] by simp
  then have "(of_int (n + 1) :: rat) \<le> 2 ^ nat (bitlen n)"
    by (simp only: of_int_le_numeral_power_cancel_iff)
  moreover have "a < of_int (n + 1)" using floor_correct [of a] by (simp add: n_def)
  ultimately have "a < 2 ^ nat (bitlen n)" by linarith
  then show ?thesis using True bitlen_ge_1 [OF n] by (simp add: ilog2_def n_def pow2_nat)
next
  case False
  define b where "b = 1 / a"
  define n where "n = \<lceil>b\<rceil> - 1"
  have b: "1 < b" using False assms by (simp add: b_def)
  have n: "0 < n" using b by (simp add: n_def)
  have k: "1 \<le> bitlen n" by (rule bitlen_ge_1 [OF n])
  have "(2::rat) ^ nat (bitlen n - 1) \<le> of_int n" using bitlen_bounds [OF n] by simp
  also have "of_int n < b" using ceiling_correct [of b] by (simp add: n_def)
  finally have "pow2 (bitlen n - 1) < b" using k by (simp add: pow2_nat)
  then have "1 / b < 1 / pow2 (bitlen n - 1)" by (simp add: frac_less2)
  moreover have "pow2 (- bitlen n + 1) = 1 / pow2 (bitlen n - 1)"
    using pow2_neg [of "bitlen n - 1"] by simp
  ultimately show ?thesis using False assms by (simp add: ilog2_def b_def n_def)
qed

lemma ilog2_mono:
  assumes "0 < a" "a \<le> b"
  shows "ilog2 a \<le> ilog2 b"
proof (rule ccontr)
  assume "\<not> ilog2 a \<le> ilog2 b"
  then have "ilog2 b + 1 \<le> ilog2 a" by simp
  then have "pow2 (ilog2 b + 1) \<le> pow2 (ilog2 a)" by (rule pow2_mono)
  moreover have "b < pow2 (ilog2 b + 1)" using assms by (intro ilog2_upper) simp
  moreover have "pow2 (ilog2 a) \<le> a" using assms by (intro ilog2_lower)
  ultimately show False using assms(2) by linarith
qed

lemma round_half_even_near:
  "q - 1 / 2 \<le> of_int (round_half_even q) \<and> of_int (round_half_even q) \<le> q + 1 / 2"
proof -
  have "of_int \<lfloor>q\<rfloor> \<le> q" "q < of_int \<lfloor>q\<rfloor> + 1" using floor_correct [of q] by simp_all
  then show ?thesis by (auto simp add: round_half_even_def Let_def; linarith)
qed

lemma round_half_even_floor:
  "\<lfloor>q\<rfloor> \<le> round_half_even q \<and> round_half_even q \<le> \<lfloor>q\<rfloor> + 1"
  by (simp add: round_half_even_def Let_def)

lemma round_half_even_of_int [simp]: "round_half_even (of_int k) = k"
  by (simp add: round_half_even_def)

lemma round_half_even_mono:
  assumes "q \<le> q'"
  shows "round_half_even q \<le> round_half_even q'"
proof (cases "\<lfloor>q\<rfloor> = \<lfloor>q'\<rfloor>")
  case True
  then show ?thesis using assms by (auto simp add: round_half_even_def Let_def)
next
  case False
  then have "\<lfloor>q\<rfloor> + 1 \<le> \<lfloor>q'\<rfloor>" using floor_mono [OF assms] by simp
  then show ?thesis
    using round_half_even_floor [of q] round_half_even_floor [of q'] by linarith
qed

lemma round_half_even_ge: "of_int k \<le> q \<Longrightarrow> k \<le> round_half_even q"
  using round_half_even_mono [of "of_int k" q] by simp

lemma round_half_even_le: "q \<le> of_int k \<Longrightarrow> round_half_even q \<le> k"
  using round_half_even_mono [of q "of_int k"] by simp

lemma exponent64_mono: "0 < a \<Longrightarrow> a \<le> b \<Longrightarrow> exponent64 a \<le> exponent64 b"
  using ilog2_mono [of a b] by (simp add: exponent64_def)

lemma round_magnitude_nonneg: "0 \<le> a \<Longrightarrow> 0 \<le> round_magnitude a"
proof -
  assume "0 \<le> a"
  then have "of_int 0 \<le> a / pow2 (exponent64 a)" by simp
  then have "0 \<le> round_half_even (a / pow2 (exponent64 a))" by (rule round_half_even_ge)
  then show ?thesis by (simp add: round_magnitude_def)
qed

lemma round_magnitude_upper:
  assumes "0 < a"
  shows "round_magnitude a \<le> pow2 (exponent64 a + 53)"
proof -
  let ?e = "exponent64 a"
  have "ilog2 a - 52 \<le> ?e" by (simp add: exponent64_def)
  then have "pow2 (ilog2 a + 1) \<le> pow2 (?e + 53)" by (intro pow2_mono) simp
  then have "a \<le> pow2 (?e + 53)" using ilog2_upper [OF assms] by linarith
  then have "a / pow2 ?e \<le> pow2 53" by (simp add: pow2_add pos_divide_le_eq mult.commute)
  also have "pow2 53 = of_int (2 ^ 53)" by (simp add: pow2_53)
  finally have "round_half_even (a / pow2 ?e) \<le> 2 ^ 53" by (rule round_half_even_le)
  then have "(of_int (round_half_even (a / pow2 ?e)) :: rat) \<le> of_int (2 ^ 53)"
    by (simp only: of_int_le_iff)
  then have "of_int (round_half_even (a / pow2 ?e)) * pow2 ?e \<le> of_int (2 ^ 53) * pow2 ?e"
    by (intro mult_right_mono) simp_all
  also have "of_int (2 ^ 53) * pow2 ?e = pow2 (?e + 53)" by (simp add: pow2_add pow2_53)
  finally show ?thesis by (simp add: round_magnitude_def)
qed

lemma round_magnitude_lower:
  assumes "0 < a" "- 1074 < exponent64 a"
  shows "pow2 (exponent64 a + 52) \<le> round_magnitude a"
proof -
  let ?e = "exponent64 a"
  have e: "?e = ilog2 a - 52" using assms(2) by (simp add: exponent64_def)
  have "pow2 (?e + 52) \<le> a" using ilog2_lower [OF assms(1)] by (simp add: e)
  then have "pow2 52 \<le> a / pow2 ?e" by (simp add: pow2_add pos_le_divide_eq mult.commute)
  moreover have "pow2 52 = of_int (2 ^ 52)" by (simp add: pow2_52)
  ultimately have "2 ^ 52 \<le> round_half_even (a / pow2 ?e)" by (intro round_half_even_ge) simp
  then have le: "(of_int (2 ^ 52) :: rat) \<le> of_int (round_half_even (a / pow2 ?e))"
    by (simp only: of_int_le_iff)
  have "pow2 (?e + 52) = of_int (2 ^ 52) * pow2 ?e" by (simp add: pow2_add pow2_52)
  also have "\<dots> \<le> of_int (round_half_even (a / pow2 ?e)) * pow2 ?e"
    using le by (intro mult_right_mono) simp_all
  finally show ?thesis by (simp add: round_magnitude_def)
qed

lemma round_magnitude_mono:
  assumes "0 < a" "a \<le> b"
  shows "round_magnitude a \<le> round_magnitude b"
proof (cases "exponent64 a = exponent64 b")
  case True
  have "a / pow2 (exponent64 b) \<le> b / pow2 (exponent64 b)"
    using assms(2) by (simp add: divide_right_mono)
  then have "round_half_even (a / pow2 (exponent64 b)) \<le> round_half_even (b / pow2 (exponent64 b))"
    by (rule round_half_even_mono)
  then have "(of_int (round_half_even (a / pow2 (exponent64 b))) :: rat)
      \<le> of_int (round_half_even (b / pow2 (exponent64 b)))"
    by (simp only: of_int_le_iff)
  then show ?thesis unfolding round_magnitude_def True
    by (intro mult_right_mono) simp_all
next
  case False
  then have lt: "exponent64 a + 1 \<le> exponent64 b"
    using exponent64_mono [OF assms] by simp
  have b: "0 < b" using assms by simp
  have "- 1074 \<le> exponent64 a" by (simp add: exponent64_def)
  then have "- 1074 < exponent64 b" using lt by simp
  then have "pow2 (exponent64 b + 52) \<le> round_magnitude b"
    by (rule round_magnitude_lower [OF b])
  moreover have "pow2 (exponent64 a + 53) \<le> pow2 (exponent64 b + 52)"
    using lt by (intro pow2_mono) simp
  ultimately show ?thesis using round_magnitude_upper [OF assms(1)] by linarith
qed

lemma round_magnitude_error:
  assumes "0 < a"
  shows "\<bar>round_magnitude a - a\<bar> \<le> pow2 (exponent64 a) / 2"
proof -
  let ?p = "pow2 (exponent64 a)"
  let ?k = "of_int (round_half_even (a / ?p)) :: rat"
  have "\<bar>?k - a / ?p\<bar> \<le> 1 / 2" using round_half_even_near [of "a / ?p"] by linarith
  then have "\<bar>?k - a / ?p\<bar> * ?p \<le> 1 / 2 * ?p" by (intro mult_right_mono) simp_all
  moreover have "\<bar>?k - a / ?p\<bar> * ?p = \<bar>?k * ?p - a\<bar>"
  proof -
    have "\<bar>?k - a / ?p\<bar> * ?p = \<bar>(?k - a / ?p) * ?p\<bar>" by (simp add: abs_mult)
    also have "(?k - a / ?p) * ?p = ?k * ?p - a" by (simp add: left_diff_distrib)
    finally show ?thesis .
  qed
  ultimately show ?thesis by (simp add: round_magnitude_def)
qed


lemma round64_pos:
  "0 < x \<Longrightarrow>
     round64 x = (if pow2 1024 \<le> round_magnitude x then PosInfinity else Fin (round_magnitude x))"
  by (simp add: round64_def Let_def)

lemma round64_neg:
  "x < 0 \<Longrightarrow>
     round64 x = (if pow2 1024 \<le> round_magnitude (- x) then NegInfinity
                  else Fin (- round_magnitude (- x)))"
  by (simp add: round64_def Let_def)

lemma round64_0 [simp]: "round64 0 = Fin 0"
  by (simp add: round64_def)

lemma round64_Fin_nonneg: "0 \<le> x \<Longrightarrow> round64 x = Fin r \<Longrightarrow> 0 \<le> r"
  using round_magnitude_nonneg [of x]
  by (cases "x = 0") (auto simp add: round64_pos split: if_splits)

lemma round64_Fin_nonpos: "x \<le> 0 \<Longrightarrow> round64 x = Fin r \<Longrightarrow> r \<le> 0"
  using round_magnitude_nonneg [of "- x"]
  by (cases "x = 0") (auto simp add: round64_neg split: if_splits)

text \<open>Rounding is monotone: between two arguments with finite results, the result is
  finite and between the two results.\<close>

lemma round64_between:
  assumes "lo \<le> x" "x \<le> hi" "round64 lo = Fin l" "round64 hi = Fin h"
  shows "\<exists>r. round64 x = Fin r \<and> l \<le> r \<and> r \<le> h"
proof -
  consider "x = 0" | "0 < x" | "x < 0" by linarith
  then show ?thesis
  proof cases
    case 1
    then show ?thesis
      using assms round64_Fin_nonpos [of lo l] round64_Fin_nonneg [of hi h] by simp
  next
    case 2
    then have hi: "0 < hi" using assms(2) by simp
    have h: "h = round_magnitude hi" "\<not> pow2 1024 \<le> round_magnitude hi"
      using assms(4) by (auto simp add: round64_pos [OF hi] split: if_splits)
    have le: "round_magnitude x \<le> round_magnitude hi"
      using 2 assms(2) by (rule round_magnitude_mono)
    then have r: "round64 x = Fin (round_magnitude x)"
      using h(2) by (simp add: round64_pos [OF 2])
    have "l \<le> round_magnitude x"
    proof (cases "0 < lo")
      case True
      then have "l = round_magnitude lo"
        using assms(3) by (auto simp add: round64_pos split: if_splits)
      then show ?thesis using round_magnitude_mono [OF True assms(1)] by simp
    next
      case False
      then have "l \<le> 0" using assms(3) round64_Fin_nonpos [of lo l] by simp
      then show ?thesis using round_magnitude_nonneg [of x] 2 by linarith
    qed
    then show ?thesis using r le h(1) by simp
  next
    case 3
    then have lo: "lo < 0" using assms(1) by simp
    have l: "l = - round_magnitude (- lo)" "\<not> pow2 1024 \<le> round_magnitude (- lo)"
      using assms(3) by (auto simp add: round64_neg [OF lo] split: if_splits)
    have le: "round_magnitude (- x) \<le> round_magnitude (- lo)"
      using 3 assms(1) by (intro round_magnitude_mono) simp_all
    then have r: "round64 x = Fin (- round_magnitude (- x))"
      using l(2) by (simp add: round64_neg [OF 3])
    have "- round_magnitude (- x) \<le> h"
    proof (cases "hi < 0")
      case True
      then have "h = - round_magnitude (- hi)"
        using assms(4) by (auto simp add: round64_neg split: if_splits)
      moreover have "round_magnitude (- hi) \<le> round_magnitude (- x)"
        using True assms(2) by (intro round_magnitude_mono) simp_all
      ultimately show ?thesis by simp
    next
      case False
      then have "0 \<le> h" using assms(4) round64_Fin_nonneg [of hi h] by simp
      then show ?thesis using round_magnitude_nonneg [of "- x"] 3 by linarith
    qed
    then show ?thesis using r le l(1) by simp
  qed
qed

text \<open>The rounding error is at most half a unit in the last place.\<close>

lemma exponent64_bound:
  assumes "0 < a" "a \<le> b" "1 \<le> b"
  shows "pow2 (exponent64 a) / 2 \<le> b / pow2 53"
proof -
  have "pow2 (exponent64 a) * pow2 52 \<le> b"
  proof (cases "- 1074 \<le> ilog2 a - 52")
    case True
    then have "exponent64 a = ilog2 a - 52" by (simp add: exponent64_def)
    then have "pow2 (exponent64 a) * pow2 52 = pow2 (ilog2 a)"
      using pow2_add [of "ilog2 a - 52" 52] by simp
    then show ?thesis using ilog2_lower [OF assms(1)] assms(2) by linarith
  next
    case False
    then have "exponent64 a = - 1074" by (simp add: exponent64_def)
    then have "pow2 (exponent64 a) * pow2 52 = pow2 (- 1022)"
      using pow2_add [of "- 1074" 52] by simp
    also have "\<dots> \<le> pow2 0" by (intro pow2_mono) simp
    also have "\<dots> \<le> b" using assms(3) by (simp add: pow2_def)
    finally show ?thesis .
  qed
  then show ?thesis by (simp add: pow2_52 pow2_53)
qed

lemma round64_error:
  assumes "\<bar>x\<bar> \<le> b" "1 \<le> b" "round64 x = Fin r"
  shows "\<bar>r - x\<bar> \<le> b / pow2 53"
proof -
  consider "x = 0" | "0 < x" | "x < 0" by linarith
  then show ?thesis
  proof cases
    case 1
    then show ?thesis using assms by simp
  next
    case 2
    then have r: "r = round_magnitude x"
      using assms(3) by (auto simp add: round64_pos split: if_splits)
    have "pow2 (exponent64 x) / 2 \<le> b / pow2 53"
      using 2 assms(1,2) by (intro exponent64_bound) simp_all
    then show ?thesis using round_magnitude_error [OF 2] unfolding r by (rule order_trans [rotated])
  next
    case 3
    then have r: "r = - round_magnitude (- x)"
      using assms(3) by (auto simp add: round64_neg split: if_splits)
    have "pow2 (exponent64 (- x)) / 2 \<le> b / pow2 53"
      using 3 assms(1,2) by (intro exponent64_bound) simp_all
    moreover have "\<bar>round_magnitude (- x) - (- x)\<bar> \<le> pow2 (exponent64 (- x)) / 2"
      using 3 by (intro round_magnitude_error) simp
    moreover have "\<bar>r - x\<bar> = \<bar>round_magnitude (- x) - (- x)\<bar>"
      unfolding r by (simp add: abs_minus_commute)
    ultimately show ?thesis by (simp only: order_trans)
  qed
qed

lemma ilog2_of_int_le_52:
  assumes "0 < k" "k < 2 ^ 53"
  shows "0 \<le> ilog2 (of_int k)" "ilog2 (of_int k) \<le> 52"
proof -
  have a: "(0::rat) < of_int k" using assms(1) by simp
  have "pow2 0 \<le> of_int k" using assms(1) by (simp add: pow2_def)
  then have "pow2 0 < pow2 (ilog2 (of_int k) + 1)" using ilog2_upper [OF a] by linarith
  then show "0 \<le> ilog2 (of_int k)"
    using pow2_mono [of "ilog2 (of_int k) + 1" 0] by (cases "0 \<le> ilog2 (of_int k)") auto
  have "(of_int k :: rat) < pow2 53" using assms(2) by (simp add: pow2_53)
  then have "pow2 (ilog2 (of_int k)) < pow2 53" using ilog2_lower [OF a] by linarith
  then show "ilog2 (of_int k) \<le> 52"
    using pow2_mono [of 53 "ilog2 (of_int k)"] by (cases "ilog2 (of_int k) \<le> 52") auto
qed

lemma round_magnitude_of_int:
  assumes "0 < k" "k < 2 ^ 53"
  shows "round_magnitude (of_int k) = of_int k"
proof -
  define e where "e = exponent64 (of_int k)"
  have e: "e \<le> 0" using ilog2_of_int_le_52 [OF assms] by (simp add: e_def exponent64_def)
  then have p: "pow2 e = 1 / 2 ^ nat (- e)" by (cases "e = 0") (simp_all add: pow2_def)
  have "of_int k / pow2 e = (of_int (k * 2 ^ nat (- e)) :: rat)" by (simp add: p)
  then have "round_half_even (of_int k / pow2 e) = k * 2 ^ nat (- e)"
    by (simp only: round_half_even_of_int)
  then show ?thesis by (simp add: round_magnitude_def e_def [symmetric] p)
qed

text \<open>An integer below \<open>2 ^ 53\<close> in magnitude is a binary64 value.\<close>

lemma round64_of_int:
  assumes "\<bar>k\<bar> < 2 ^ 53"
  shows "round64 (of_int k) = Fin (of_int k)"
proof -
  have big: "(of_int j :: rat) < pow2 1024" if "j < 2 ^ 53" for j :: int
  proof -
    have "(of_int j :: rat) < pow2 53" using that by (simp add: pow2_53)
    also have "\<dots> \<le> pow2 1024" by (intro pow2_mono) simp
    finally show ?thesis .
  qed
  consider "k = 0" | "0 < k" | "k < 0" by linarith
  then show ?thesis
  proof cases
    case 1
    then show ?thesis by simp
  next
    case 2
    then have "round_magnitude (of_int k) = of_int k"
      using assms by (intro round_magnitude_of_int) simp_all
    then show ?thesis using 2 big [of k] assms by (simp add: round64_pos)
  next
    case 3
    then have "round_magnitude (of_int (- k)) = of_int (- k)"
      using assms by (intro round_magnitude_of_int) simp_all
    then show ?thesis using 3 big [of "- k"] assms by (simp add: round64_neg)
  qed
qed

lemma round64_numeral: "numeral k < (2::int) ^ 53 \<Longrightarrow> round64 (numeral k) = Fin (numeral k)"
  using round64_of_int [of "numeral k"] by simp

lemma js_rem_nonneg_int:
  assumes "0 \<le> a" "0 < b"
  shows "js_rem (Fin (of_int a)) (Fin (of_int b)) = Fin (of_int (a mod b))"
proof -
  have "(0::rat) \<le> of_int a / of_int b" using assms by simp
  then have "truncate_rat (of_int a / of_int b) = a div b"
    by (simp add: truncate_rat_def floor_divide_of_int_eq)
  moreover have "a - b * (a div b) = a mod b" by (simp add: minus_mult_div_eq_mod)
  then have "(of_int a :: rat) - of_int b * of_int (a div b) = of_int (a mod b)"
    by (metis of_int_diff of_int_mult)
  ultimately show ?thesis using assms by simp
qed

section \<open>\<^verbatim>\<open>Math.PI\<close> and \<open>\<pi>\<close>\<close>

lemma arctan_partial_sums:
  fixes x :: real
  assumes "0 \<le> x" "x \<le> 1"
  shows "(\<Sum>k<2 * n. (- 1) ^ k * (1 / real (k * 2 + 1) * x ^ (k * 2 + 1))) \<le> arctan x"
    and "arctan x \<le> (\<Sum>k<2 * n + 1. (- 1) ^ k * (1 / real (k * 2 + 1) * x ^ (k * 2 + 1)))"
proof -
  let ?a = "\<lambda>k. 1 / real (k * 2 + 1) * x ^ (k * 2 + 1)"
  have x: "\<bar>x\<bar> \<le> 1" using assms by simp
  have zero: "?a \<longlonglongrightarrow> 0" by (rule zeroseq_arctan_series [OF x])
  have nonneg: "0 \<le> ?a k" for k using assms by simp
  have decr: "?a (Suc k) \<le> ?a k" for k
  proof (rule mult_mono)
    show "1 / real (Suc k * 2 + 1) \<le> 1 / real (k * 2 + 1)" by (simp add: field_simps)
    show "x ^ (Suc k * 2 + 1) \<le> x ^ (k * 2 + 1)" using assms by (intro power_decreasing) simp_all
  qed (use assms in simp_all)
  have series: "arctan x = (\<Sum>k. (- 1) ^ k * ?a k)" by (rule arctan_series [OF x])
  show "(\<Sum>k<2 * n. (- 1) ^ k * ?a k) \<le> arctan x"
    unfolding series by (rule summable_Leibniz'(2) [OF zero nonneg decr])
  show "arctan x \<le> (\<Sum>k<2 * n + 1. (- 1) ^ k * ?a k)"
    unfolding series by (rule summable_Leibniz'(4) [OF zero nonneg decr])
qed

lemma pi_machin: "pi = 16 * arctan (1 / 5) - 4 * arctan (1 / 239)"
  using machin by simp

lemma Math_PI_le_pi: "884279719003555 / 281474976710656 \<le> pi"
  unfolding pi_machin
  using arctan_partial_sums(1) [of "1 / 5" 6] arctan_partial_sums(2) [of "1 / 239" 2]
  by (simp add: eval_nat_numeral)

lemma pi_le_Math_PI_ulp: "pi \<le> 884279719003555 / 281474976710656 + 1 / 2 ^ 52"
  unfolding pi_machin
  using arctan_partial_sums(2) [of "1 / 5" 6] arctan_partial_sums(1) [of "1 / 239" 2]
  by (simp add: eval_nat_numeral)

section \<open>The leap-year rule\<close>

lemma js_rem_of_int_eq_0:
  assumes "0 < n"
  shows "js_eq (js_rem (Fin (of_int y)) (Fin (of_int n))) (Fin 0) \<longleftrightarrow> n dvd y"
proof -
  let ?q = "of_int y / of_int n :: rat"
  have n0: "(of_int n :: rat) \<noteq> 0" using assms by simp
  have "of_int y - of_int n * of_int (truncate_rat ?q) = (0::rat) \<longleftrightarrow> y = n * truncate_rat ?q"
    by (metis (no_types) eq_iff_diff_eq_0 of_int_eq_iff of_int_mult)
  moreover have "y = n * truncate_rat ?q \<longleftrightarrow> n dvd y"
  proof
    assume "y = n * truncate_rat ?q"
    then show "n dvd y" by (metis dvd_triv_left)
  next
    assume "n dvd y"
    then obtain k where k: "y = n * k" ..
    then have "?q = of_int k" using n0 by simp
    then have "truncate_rat ?q = k" by (simp add: truncate_rat_def)
    then show "y = n * truncate_rat ?q" using k by simp
  qed
  ultimately show ?thesis using n0 by simp
qed

text \<open>
  C3. For a date whose year in the local time zone is \<open>Y\<close>, \<open>isLeapYear\<close> returns true
  exactly when \<open>Y\<close> is divisible by 400, or by 4 and not by 100: false for 1900, true
  for 2000, false for 2001, true for 2012, false for 2015.
\<close>

theorem isLeapYear_divisibility_rule:
  "(isLeapYear local_year (Date t)
      \<longleftrightarrow> 400 dvd local_year t \<or> (4 dvd local_year t \<and> \<not> 100 dvd local_year t))
   \<and> (local_year t = 1900 \<longrightarrow> \<not> isLeapYear local_year (Date t))
   \<and> (local_year t = 2000 \<longrightarrow> isLeapYear local_year (Date t))
   \<and> (local_year t = 2001 \<longrightarrow> \<not> isLeapYear local_year (Date t))
   \<and> (local_year t = 2012 \<longrightarrow> isLeapYear local_year (Date t))
   \<and> (local_year t = 2015 \<longrightarrow> \<not> isLeapYear local_year (Date t))"
proof -
  have rule: "isLeapYear local_year (Date t)
      \<longleftrightarrow> 400 dvd local_year t \<or> (4 dvd local_year t \<and> \<not> 100 dvd local_year t)"
    using js_rem_of_int_eq_0 [of 400 "local_year t"] js_rem_of_int_eq_0 [of 100 "local_year t"]
      js_rem_of_int_eq_0 [of 4 "local_year t"]
    by (simp add: isLeapYear_def NewDate_def)
  show ?thesis unfolding rule by presburger
qed

theorem isLeapYear_divisibility_rule_witness:
  "isLeapYear (\<lambda>t. 2000) (Date 949399200000) \<and> \<not> isLeapYear (\<lambda>t. 1900) (Date 949399200000)"
  using isLeapYear_divisibility_rule [of "\<lambda>t. 2000" 949399200000]
    isLeapYear_divisibility_rule [of "\<lambda>t. 1900" 949399200000]
  by simp

section \<open>The RFC 2822 parser\<close>





text \<open>
  C2 holds of the specification's condition and fails on the code, by a slip of the
  pattern \<^verbatim>\<open>/GMT\+[0-9]{4}$/\<close>, which knows the sign \<^verbatim>\<open>+\<close> only. In
  \<^verbatim>\<open>Sun, 17 May 1998 03:00:00 GMT-0100\<close> the token \<^verbatim>\<open>GMT\<close> is followed by a four-digit
  negative offset, so the string is to be passed on unchanged; the code appends \<^verbatim>\<open>00\<close>
  and passes \<^verbatim>\<open>GMT-010000\<close>. The same string with the offset \<^verbatim>\<open>GMT+0100\<close> is passed
  on unchanged.
\<close>

theorem parseDataFromRfc2822_negative_offset:
  "spec_rfc2822_argument ''Sun, 17 May 1998 03:00:00 GMT-0100''
     = ''Sun, 17 May 1998 03:00:00 GMT-0100''
   \<and> parseDataFromRfc2822 id ''Sun, 17 May 1998 03:00:00 GMT-0100''
     = ''Sun, 17 May 1998 03:00:00 GMT-010000''
   \<and> parseDataFromRfc2822 id ''Sun, 17 May 1998 03:00:00 GMT+0100''
     = ''Sun, 17 May 1998 03:00:00 GMT+0100''"
proof -
  have "sublist (''GMT'' @ CHR ''-'' # ''0100'')
          (''Sun, 17 May 1998 03:00:00 '' @ (''GMT'' @ CHR ''-'' # ''0100'') @ [])"
    by (rule sublist_appendI)
  then have "spec_has_numeric_offset ''Sun, 17 May 1998 03:00:00 GMT-0100''"
    unfolding spec_has_numeric_offset_def
    by (intro exI [of _ "CHR ''-''"] exI [of _ "''0100''"]) (simp add: is_digit_def)
  then have "spec_rfc2822_argument ''Sun, 17 May 1998 03:00:00 GMT-0100''
      = ''Sun, 17 May 1998 03:00:00 GMT-0100''"
    by (simp add: spec_rfc2822_argument_def)
  moreover have "parseDataFromRfc2822 id ''Sun, 17 May 1998 03:00:00 GMT-0100''
      = ''Sun, 17 May 1998 03:00:00 GMT-010000''"
    by (simp add: parseDataFromRfc2822_def String_search_def RegExp_test_def is_digit_def
        eval_nat_numeral)
  moreover have "parseDataFromRfc2822 id ''Sun, 17 May 1998 03:00:00 GMT+0100''
      = ''Sun, 17 May 1998 03:00:00 GMT+0100''"
    by (simp add: parseDataFromRfc2822_def String_search_def RegExp_test_def is_digit_def
        eval_nat_numeral)
  ultimately show ?thesis by simp
qed

section \<open>The ISO 8601 parser, and exceptions\<close>

text \<open>
  C8. \<open>parseDataFromIso8601\<close> returns what the platform's parser returns on the same
  string, which it passes on unchanged.
\<close>

theorem parseDataFromIso8601_is_DateParse:
  "parseDataFromIso8601 DateParse value = DateParse value"
  by (simp add: parseDataFromIso8601_def)




section \<open>The time span formatter\<close>

lemma ms_branch_never_below_10: "ms_branch ms \<noteq> MsBelow10"
  by (cases ms) (auto simp add: ms_branch_def)

text \<open>
  C10. In \<open>timeSpanToString\<close> the branch guarded by \<^verbatim>\<open>ms < 10\<close> never runs, whatever the
  two instants are: a millisecond component below 10 is zero, and taken by the
  \<^verbatim>\<open>ms === 0\<close> branch, or it is below 100, and taken by the \<^verbatim>\<open>ms < 100\<close> branch.
\<close>

theorem timeSpanToString_ms_below_10_unreachable:
  "ms_branch (js_rem (js_sub (getTime (NewDate endDate)) (getTime (NewDate startDate))) (Fin 1000))
     \<noteq> MsBelow10"
  by (rule ms_branch_never_below_10)

text \<open>
  C1 fails on the code: for a span of 5 milliseconds the padded milliseconds are
  written into the hours field and the millisecond field stays unpadded; the result is
  \<^verbatim>\<open>05:00:00.5\<close> where the claim has \<^verbatim>\<open>00:00:00.005\<close>.
\<close>

theorem timeSpanToString_5_ms:
  "timeSpanToString (Date t) (Date (t + 5)) = Some ''05:00:00.5''"
  by (simp add: timeSpan_eval split del: if_split)

lemma timeSpanToString_1_hour:
  "timeSpanToString (Date t) (Date (t + 3600000)) = Some ''01:00:00.000''"
  by (simp add: timeSpan_eval split del: if_split)

lemma timeSpanToString_30_minutes:
  "timeSpanToString (Date t) (Date (t + 1800000)) = Some ''00:30:00.000''"
  by (simp add: timeSpan_eval split del: if_split)

lemma timeSpanToString_20_seconds:
  "timeSpanToString (Date t) (Date (t + 20000)) = Some ''00:00:20.000''"
  by (simp add: timeSpan_eval split del: if_split)

lemma timeSpanToString_250_ms:
  "timeSpanToString (Date t) (Date (t + 250)) = Some ''00:00:00.250''"
  by (simp add: timeSpan_eval split del: if_split)

lemma timeSpanToString_5_20_10_453:
  "timeSpanToString (Date t) (Date (t + 19210453)) = Some ''05:20:10.453''"
  by (simp add: timeSpan_eval split del: if_split)

text \<open>
  C6. From any start instant, \<open>timeSpanToString\<close> returns \<^verbatim>\<open>01:00:00.000\<close> for a span of
  one hour, \<^verbatim>\<open>00:30:00.000\<close> for 30 minutes, \<^verbatim>\<open>00:00:20.000\<close> for 20 seconds,
  \<^verbatim>\<open>00:00:00.250\<close> for 250 milliseconds and \<^verbatim>\<open>05:20:10.453\<close> for 5 hours 20 minutes
  10 seconds 453 milliseconds (19210453 milliseconds).
\<close>

theorem timeSpanToString_examples:
  "timeSpanToString (Date t) (Date (t + 3600000)) = Some ''01:00:00.000''
   \<and> timeSpanToString (Date t) (Date (t + 1800000)) = Some ''00:30:00.000''
   \<and> timeSpanToString (Date t) (Date (t + 20000)) = Some ''00:00:20.000''
   \<and> timeSpanToString (Date t) (Date (t + 250)) = Some ''00:00:00.250''
   \<and> timeSpanToString (Date t) (Date (t + 19210453)) = Some ''05:20:10.453''"
  using timeSpanToString_1_hour timeSpanToString_30_minutes timeSpanToString_20_seconds
    timeSpanToString_250_ms timeSpanToString_5_20_10_453
  by blast

section \<open>The clock hands\<close>

lemma round64_minus: "round64 (- x) = js_neg (round64 x)"
proof -
  consider "x = 0" | "0 < x" | "x < 0" by linarith
  then show ?thesis
    by cases (simp_all add: round64_pos round64_neg)
qed

text \<open>One rounding step: for \<open>\<bar>x\<bar> \<le> b\<close> with \<open>b \<ge> 1\<close> a binary64 value, the result is
  finite, within \<open>b\<close>, of the sign of \<open>x\<close>, and off by at most \<open>b / 2 ^ 53\<close>.\<close>

lemma round64_step:
  assumes "\<bar>x\<bar> \<le> b" "1 \<le> b" "round64 b = Fin b"
  obtains r where "round64 x = Fin r" "\<bar>r\<bar> \<le> b" "\<bar>r - x\<bar> \<le> b / 9007199254740992"
    "0 \<le> x \<Longrightarrow> 0 \<le> r"
proof -
  have "round64 (- b) = Fin (- b)" using assms(3) by (simp add: round64_minus)
  moreover have "- b \<le> x" "x \<le> b" using assms(1) by linarith+
  ultimately obtain r where r: "round64 x = Fin r" "- b \<le> r" "r \<le> b"
    using round64_between [of "- b" x b "- b" b] assms(3) by blast
  have "\<bar>r - x\<bar> \<le> b / pow2 53" using assms(1,2) r(1) by (rule round64_error)
  then have "\<bar>r - x\<bar> \<le> b / 9007199254740992" by (simp add: pow2_53)
  moreover have "\<bar>r\<bar> \<le> b" using r(2,3) by linarith
  moreover have "0 \<le> x \<Longrightarrow> 0 \<le> r" by (rule round64_Fin_nonneg [OF _ r(1)])
  ultimately show thesis using r(1) that by blast
qed

lemma minutesArrowAngle_exact:
  assumes "0 \<le> m" "m < 60"
  shows "js_div (js_mul (Fin (of_int m)) (Fin 360)) (Fin 60) = Fin (of_int (6 * m))"
proof -
  have "\<bar>m * 360\<bar> < 2 ^ 53" "\<bar>6 * m\<bar> < 2 ^ 53" using assms by simp_all
  then have "round64 (of_int (m * 360)) = Fin (of_int (m * 360))"
    "round64 (of_int (6 * m)) = Fin (of_int (6 * m))"
    by (simp_all only: round64_of_int)
  then show ?thesis by simp
qed

lemma hoursArrowAngle_near:
  assumes "0 \<le> hr" "hr < 12" "0 \<le> m" "m < 60"
  obtains r where
    "js_div (js_mul (js_add (Fin (of_int hr)) (js_div (Fin (of_int m)) (Fin 60))) (Fin 360)) (Fin 12)
       = Fin r"
    "0 \<le> r" "r \<le> 360"
    "\<bar>r - (30 * of_int hr + of_int m / 2)\<bar> \<le> 1110 / 9007199254740992"
proof -
  let ?h = "of_int hr :: rat" and ?m = "of_int m :: rat"
  have hm: "0 \<le> ?h" "?h \<le> 11" "0 \<le> ?m" "?m \<le> 59" using assms by simp_all
  have c: "round64 1 = Fin 1" "round64 12 = Fin 12" "round64 4320 = Fin 4320"
    "round64 360 = Fin 360"
    by (simp_all add: round64_numeral) (use round64_of_int [of 1] in simp)
  obtain r3 where r3: "round64 (?m / 60) = Fin r3" "\<bar>r3\<bar> \<le> 1"
      "\<bar>r3 - ?m / 60\<bar> \<le> 1 / 9007199254740992" "0 \<le> r3"
    using round64_step [of "?m / 60" 1] c(1) hm by (auto simp add: abs_le_iff)
  obtain r4 where r4: "round64 (?h + r3) = Fin r4" "\<bar>r4\<bar> \<le> 12"
      "\<bar>r4 - (?h + r3)\<bar> \<le> 12 / 9007199254740992" "0 \<le> r4"
  proof (rule round64_step [of "?h + r3" 12])
    show "\<bar>?h + r3\<bar> \<le> 12" using hm r3 by linarith
  qed (use c hm r3 in auto)
  obtain r5 where r5: "round64 (r4 * 360) = Fin r5" "\<bar>r5\<bar> \<le> 4320"
      "\<bar>r5 - r4 * 360\<bar> \<le> 4320 / 9007199254740992" "0 \<le> r5"
  proof (rule round64_step [of "r4 * 360" 4320])
    show "\<bar>r4 * 360\<bar> \<le> 4320" using r4 by linarith
  qed (use c r4 in auto)
  obtain r6 where r6: "round64 (r5 / 12) = Fin r6" "\<bar>r6\<bar> \<le> 360"
      "\<bar>r6 - r5 / 12\<bar> \<le> 360 / 9007199254740992" "0 \<le> r6"
  proof (rule round64_step [of "r5 / 12" 360])
    show "\<bar>r5 / 12\<bar> \<le> 360" using r5 by linarith
  qed (use c r5 in auto)
  have "js_div (js_mul (js_add (Fin ?h) (js_div (Fin ?m) (Fin 60))) (Fin 360)) (Fin 12) = Fin r6"
    by (simp add: r3 r4 r5 r6)
  moreover have "\<bar>r6 - (30 * ?h + ?m / 2)\<bar> \<le> 1110 / 9007199254740992"
    using r3(3) r4(3) r5(3) r6(3) by linarith
  ultimately show thesis using r6 that by auto
qed

text \<open>The angle in degrees, folded into \<open>[0, 180]\<close>: the code's value against the exact one.\<close>

lemma folded_angle_near:
  assumes "0 \<le> r6" "r6 \<le> 360" "0 \<le> m" "m < 60"
    and "\<bar>r6 - x\<bar> \<le> 1110 / 9007199254740992"
  obtains r where
    "(let angle = Math_abs (js_sub (Fin r6) (Fin (of_int (6 * m))))
      in if js_gt angle (Fin 180) then js_sub (Fin 360) angle else angle) = Fin r"
    "0 \<le> r" "r \<le> 180"
    "\<bar>r - (let d = \<bar>x - of_int (6 * m)\<bar> in if 180 < d then 360 - d else d)\<bar>
       \<le> 1650 / 9007199254740992"
proof -
  let ?m6 = "of_int (6 * m) :: rat"
  have "(0::rat) \<le> of_int m" "(of_int m :: rat) \<le> 59" using assms(3,4) by simp_all
  then have m6: "0 \<le> ?m6" "?m6 \<le> 354" by simp_all
  have c: "round64 360 = Fin 360" "round64 180 = Fin 180" by (simp_all add: round64_numeral)
  obtain r7 where r7: "round64 (r6 - ?m6) = Fin r7" "\<bar>r7\<bar> \<le> 360"
      "\<bar>r7 - (r6 - ?m6)\<bar> \<le> 360 / 9007199254740992"
  proof (rule round64_step [of "r6 - ?m6" 360])
    show "\<bar>r6 - ?m6\<bar> \<le> 360" using assms(1,2) m6 by linarith
  qed (use c in auto)
  have angle: "Math_abs (js_sub (Fin r6) (Fin ?m6)) = Fin \<bar>r7\<bar>"
    using r7(1) by (simp add: js_sub_def)
  have d: "\<bar>\<bar>r7\<bar> - \<bar>x - ?m6\<bar>\<bar> \<le> 1470 / 9007199254740992"
    using r7(3) assms(5) by linarith
  show thesis
  proof (cases "180 < \<bar>r7\<bar>")
    case True
    have nonneg: "0 \<le> 360 - \<bar>r7\<bar>" using r7(2) by linarith
    obtain r9 where r9: "round64 (360 - \<bar>r7\<bar>) = Fin r9" "\<bar>r9\<bar> \<le> 180"
        "\<bar>r9 - (360 - \<bar>r7\<bar>)\<bar> \<le> 180 / 9007199254740992" "0 \<le> r9"
    proof (rule round64_step [of "360 - \<bar>r7\<bar>" 180])
      show "\<bar>360 - \<bar>r7\<bar>\<bar> \<le> 180" using True r7(2) by linarith
    qed (use c nonneg in auto)
    have "(let angle = Math_abs (js_sub (Fin r6) (Fin ?m6))
           in if js_gt angle (Fin 180) then js_sub (Fin 360) angle else angle) = Fin r9"
      using True r9(1) unfolding angle by (simp add: js_gt_def js_sub_def Let_def)
    moreover have "\<bar>r9 - (let d = \<bar>x - ?m6\<bar> in if 180 < d then 360 - d else d)\<bar>
        \<le> 1650 / 9007199254740992"
    proof (cases "180 < \<bar>x - ?m6\<bar>")
      case True
      then have "(let d = \<bar>x - ?m6\<bar> in if 180 < d then 360 - d else d) = 360 - \<bar>x - ?m6\<bar>"
        by (simp only: Let_def if_True)
      then show ?thesis using r9(3) d by linarith
    next
      case False
      then have "(let d = \<bar>x - ?m6\<bar> in if 180 < d then 360 - d else d) = \<bar>x - ?m6\<bar>"
        by (simp only: Let_def if_False)
      then show ?thesis using r9(3) d False \<open>180 < \<bar>r7\<bar>\<close> by linarith
    qed
    ultimately show ?thesis using r9 that by auto
  next
    case False
    have "(let angle = Math_abs (js_sub (Fin r6) (Fin ?m6))
           in if js_gt angle (Fin 180) then js_sub (Fin 360) angle else angle) = Fin \<bar>r7\<bar>"
      using False unfolding angle by (simp add: js_gt_def Let_def)
    moreover have "\<bar>\<bar>r7\<bar> - (let d = \<bar>x - ?m6\<bar> in if 180 < d then 360 - d else d)\<bar>
        \<le> 1650 / 9007199254740992"
    proof (cases "180 < \<bar>x - ?m6\<bar>")
      case True
      then have "(let d = \<bar>x - ?m6\<bar> in if 180 < d then 360 - d else d) = 360 - \<bar>x - ?m6\<bar>"
        by (simp only: Let_def if_True)
      then show ?thesis using d True \<open>\<not> 180 < \<bar>r7\<bar>\<close> by linarith
    next
      case False
      then have "(let d = \<bar>x - ?m6\<bar> in if 180 < d then 360 - d else d) = \<bar>x - ?m6\<bar>"
        by (simp only: Let_def if_False)
      then show ?thesis using d by linarith
    qed
    ultimately show ?thesis using False that by auto
  qed
qed

lemma radians_near:
  assumes "0 \<le> a" "a \<le> 180"
  obtains r where "js_div (js_mul (Fin a) Math_PI) (Fin 180) = Fin r"
    "0 \<le> r" "r \<le> 884279719003555 / 281474976710656"
    "\<bar>r - a * (884279719003555 / 281474976710656) / 180\<bar> \<le> 8 / 9007199254740992"
proof -
  let ?PI = "884279719003555 / 281474976710656 :: rat"
  have c: "round64 (180 * ?PI) = Fin (4974073419394997 / 8796093022208)"
    "round64 (4974073419394997 / 8796093022208 / 180) = Fin ?PI"
    "round64 566 = Fin 566" "round64 4 = Fin 4"
    by (simp_all add: round64_eval split del: if_split)
  have a: "0 \<le> a * ?PI" "a * ?PI \<le> 180 * ?PI" using assms by simp_all
  obtain r10 where r10: "round64 (a * ?PI) = Fin r10" "0 \<le> r10"
      "r10 \<le> 4974073419394997 / 8796093022208"
    using round64_between [OF a round64_0 c(1)] by blast
  have "\<bar>r10 - a * ?PI\<bar> \<le> 566 / pow2 53"
  proof (rule round64_error [OF _ _ r10(1)])
    show "\<bar>a * ?PI\<bar> \<le> 566" using a by linarith
  qed simp
  then have e10: "\<bar>r10 - a * ?PI\<bar> \<le> 566 / 9007199254740992" by (simp add: pow2_53)
  have b: "0 \<le> r10 / 180" "r10 / 180 \<le> 4974073419394997 / 8796093022208 / 180"
    using r10(2,3) by simp_all
  obtain r11 where r11: "round64 (r10 / 180) = Fin r11" "0 \<le> r11" "r11 \<le> ?PI"
    using round64_between [OF b round64_0 c(2)] by blast
  have "\<bar>r11 - r10 / 180\<bar> \<le> 4 / pow2 53"
  proof (rule round64_error [OF _ _ r11(1)])
    show "\<bar>r10 / 180\<bar> \<le> 4" using r10(2,3) by linarith
  qed simp
  then have e11: "\<bar>r11 - r10 / 180\<bar> \<le> 4 / 9007199254740992" by (simp add: pow2_53)
  have "js_mul (Fin a) Math_PI = Fin r10"
    unfolding Math_PI_def by (simp only: js_mul.simps r10(1))
  then have "js_div (js_mul (Fin a) Math_PI) (Fin 180) = Fin r11"
    by (simp add: r11(1))
  moreover have "\<bar>r11 - a * ?PI / 180\<bar> \<le> 8 / 9007199254740992"
    using e10 e11 by linarith
  ultimately show thesis using r11 that by auto
qed

lemma spec_angle_degrees_range:
  assumes "0 \<le> m" "m < 60"
  shows "0 \<le> spec_angle_degrees h m \<and> spec_angle_degrees h m \<le> 180"
proof -
  define d where "d = \<bar>(of_int (h mod 12) + of_int m / 60) * 30 - of_int m * (6::rat)\<bar>"
  have "0 \<le> h mod 12" "h mod 12 \<le> 11" by simp_all
  then have "(0::rat) \<le> of_int (h mod 12)" "(of_int (h mod 12) :: rat) \<le> 11"
    by simp_all
  moreover have "(0::rat) \<le> of_int m" "(of_int m :: rat) \<le> 59" using assms by simp_all
  moreover have "d = \<bar>30 * of_int (h mod 12) + of_int m / 2 - 6 * of_int m\<bar>"
    unfolding d_def by (simp add: algebra_simps)
  ultimately have d: "0 \<le> d" "d \<le> 360" by linarith+
  have "spec_angle_degrees h m = (if 180 < d then 360 - d else d)"
    by (simp only: spec_angle_degrees_def Let_def d_def)
  then show ?thesis using d by (cases "180 < d") simp_all
qed

lemma angleBetweenClockHands_near:
  fixes t :: int
  obtains r where "angleBetweenClockHands (Date t) = Fin r"
    "0 \<le> r" "r \<le> 884279719003555 / 281474976710656"
    "\<bar>r - spec_angle_degrees (t div 3600000 mod 24) (t div 60000 mod 60)
            * (884279719003555 / 281474976710656) / 180\<bar>
       \<le> 40 / 9007199254740992"
proof -
  define h where "h = t div 3600000 mod 24"
  define m where "m = t div 60000 mod 60"
  define hr where "hr = h mod 12"
  let ?PI = "884279719003555 / 281474976710656 :: rat"
  have h: "0 \<le> h" and m: "0 \<le> m" "m < 60" by (simp_all add: h_def m_def)
  have hr: "0 \<le> hr" "hr < 12" by (simp_all add: hr_def)
  have rem: "js_rem (Fin (of_int h)) (Fin 12) = Fin (of_int hr)"
    using js_rem_nonneg_int [of h 12] h by (simp add: hr_def)
  obtain r6 where r6:
      "js_div (js_mul (js_add (Fin (of_int hr)) (js_div (Fin (of_int m)) (Fin 60))) (Fin 360)) (Fin 12)
         = Fin r6"
      "0 \<le> r6" "r6 \<le> 360"
      "\<bar>r6 - (30 * of_int hr + of_int m / 2)\<bar> \<le> 1110 / 9007199254740992"
    using hoursArrowAngle_near [OF hr m] by blast
  obtain r9 where r9:
      "(let angle = Math_abs (js_sub (Fin r6) (Fin (of_int (6 * m))))
        in if js_gt angle (Fin 180) then js_sub (Fin 360) angle else angle) = Fin r9"
      "0 \<le> r9" "r9 \<le> 180"
      "\<bar>r9 - (let d = \<bar>(30 * of_int hr + of_int m / 2) - of_int (6 * m)\<bar>
                  in if 180 < d then 360 - d else d)\<bar>
         \<le> 1650 / 9007199254740992"
    using folded_angle_near [OF r6(2,3) m r6(4)] by blast
  obtain r where r: "js_div (js_mul (Fin r9) Math_PI) (Fin 180) = Fin r"
      "0 \<le> r" "r \<le> ?PI" "\<bar>r - r9 * ?PI / 180\<bar> \<le> 8 / 9007199254740992"
    using radians_near [OF r9(2,3)] by blast
  have deg: "(let d = \<bar>(30 * of_int hr + of_int m / 2) - of_int (6 * m)\<bar>
              in if 180 < d then 360 - d else d) = spec_angle_degrees h m"
    by (simp add: spec_angle_degrees_def hr_def Let_def algebra_simps)
  have "angleBetweenClockHands (Date t) = Fin r"
    unfolding angleBetweenClockHands_def Number_parseFloat_def getUTCHours.simps
      getUTCMinutes.simps h_def [symmetric] m_def [symmetric]
    using r9(1) r(1)
    by (simp only: Let_def rem minutesArrowAngle_exact [OF m] r6(1))
  moreover have "\<bar>r - spec_angle_degrees h m * ?PI / 180\<bar> \<le> 40 / 9007199254740992"
    using r(4) r9(4) unfolding deg by linarith
  ultimately show thesis using r(2,3) that unfolding h_def m_def by blast
qed

text \<open>
  C4. For every instant the value of \<open>angleBetweenClockHands\<close> is a finite number in
  \<open>[0, \<pi>]\<close>: at least 0, at most \<^verbatim>\<open>Math.PI\<close>, which is below \<open>\<pi>\<close>.
\<close>

theorem angleBetweenClockHands_range:
  "\<exists>r. angleBetweenClockHands (Date t) = Fin r
     \<and> 0 \<le> r \<and> r \<le> 884279719003555 / 281474976710656 \<and> (0::real) \<le> of_rat r \<and> of_rat r \<le> pi"
proof -
  obtain r where r: "angleBetweenClockHands (Date t) = Fin r"
      "0 \<le> r" "r \<le> 884279719003555 / 281474976710656"
    using angleBetweenClockHands_near [of t] by blast
  have "(of_rat r :: real) \<le> of_rat (884279719003555 / 281474976710656)"
    using r(3) by (simp only: of_rat_less_eq)
  also have "\<dots> = 884279719003555 / 281474976710656" by (simp add: of_rat_divide)
  also have "\<dots> \<le> pi" by (rule Math_PI_le_pi)
  finally have "(of_rat r :: real) \<le> pi" .
  moreover have "(0::real) \<le> of_rat r" using r(2) by simp
  ultimately show ?thesis using r by blast
qed

lemma angleBetweenClockHands_error:
  "\<exists>r. angleBetweenClockHands (Date t) = Fin r
     \<and> \<bar>of_rat r - spec_clock_angle (t div 3600000 mod 24) (t div 60000 mod 60)\<bar> \<le> 1 / 2 ^ 47"
proof -
  define A where "A = spec_angle_degrees (t div 3600000 mod 24) (t div 60000 mod 60)"
  let ?PI = "884279719003555 / 281474976710656 :: rat"
  let ?P = "884279719003555 / 281474976710656 :: real"
  obtain r where r: "angleBetweenClockHands (Date t) = Fin r"
      "\<bar>r - A * ?PI / 180\<bar> \<le> 40 / 9007199254740992"
    using angleBetweenClockHands_near [of t] unfolding A_def by blast
  have A: "0 \<le> A" "A \<le> 180"
    using spec_angle_degrees_range [of "t div 60000 mod 60" "t div 3600000 mod 24"]
    by (simp_all add: A_def)
  have "(of_rat \<bar>r - A * ?PI / 180\<bar> :: real) \<le> of_rat (40 / 9007199254740992)"
    using r(2) by (simp only: of_rat_less_eq)
  then have e1: "\<bar>of_rat r - of_rat A * ?P / 180\<bar> \<le> (40 / 9007199254740992 :: real)"
    by (simp add: abs_of_rat [symmetric] of_rat_diff of_rat_mult of_rat_divide del: abs_of_rat)
  have RA: "(0::real) \<le> of_rat A" "(of_rat A :: real) \<le> 180" using A by (simp_all add: of_rat_less_eq [of A 180, where ?'a = real, simplified])
  have "\<bar>?P - pi\<bar> \<le> 1 / 2 ^ 52" using Math_PI_le_pi pi_le_Math_PI_ulp by linarith
  then have "\<bar>of_rat A\<bar> * \<bar>?P - pi\<bar> \<le> 180 * (1 / 2 ^ 52)"
    using RA by (intro mult_mono) simp_all
  moreover have "of_rat A * ?P - of_rat A * pi = of_rat A * (?P - pi)"
    by (simp only: right_diff_distrib)
  ultimately have e2: "\<bar>of_rat A * ?P - of_rat A * pi\<bar> \<le> 180 * (1 / 2 ^ 52)"
    by (simp only: abs_mult)
  have "\<bar>X - Z / 180\<bar> \<le> c1 + c2 / 180" if "\<bar>X - Y / 180\<bar> \<le> c1" "\<bar>Y - Z\<bar> \<le> c2"
    for X Y Z c1 c2 :: real
    using that by linarith
  from this [OF e1 e2]
  have "\<bar>of_rat r - of_rat A * pi / 180\<bar> \<le> 40 / 9007199254740992 + (180 * (1 / 2 ^ 52)) / 180" .
  also have "\<dots> \<le> 1 / 2 ^ 47" by simp
  finally show ?thesis using r(1) by (auto simp add: spec_clock_angle_def A_def)
qed

lemmas clock_eval = angleBetweenClockHands_def Number_parseFloat_def js_sub_def js_gt_def
  Math_PI_def truncate_rat_def round64_eval

lemma angleBetweenClockHands_0_00:
  assumes "t div 3600000 mod 24 = 0" "t div 60000 mod 60 = 0"
  shows "angleBetweenClockHands (Date t) = Fin 0"
  by (simp add: assms clock_eval split del: if_split)

lemma angleBetweenClockHands_3_00:
  assumes "t div 3600000 mod 24 = 3" "t div 60000 mod 60 = 0"
  shows "angleBetweenClockHands (Date t) = js_div Math_PI (Fin 2)"
  by (simp add: assms clock_eval split del: if_split)

lemma angleBetweenClockHands_6_00:
  assumes "t div 3600000 mod 24 = 6" "t div 60000 mod 60 = 0"
  shows "angleBetweenClockHands (Date t) = Math_PI"
  by (simp add: assms clock_eval split del: if_split)

lemma angleBetweenClockHands_9_00:
  assumes "t div 3600000 mod 24 = 9" "t div 60000 mod 60 = 0"
  shows "angleBetweenClockHands (Date t) = js_div Math_PI (Fin 2)"
  by (simp add: assms clock_eval split del: if_split)

lemma spec_clock_angle_values:
  "spec_clock_angle 0 0 = 0" "spec_clock_angle 3 0 = pi / 2" "spec_clock_angle 6 0 = pi"
  "spec_clock_angle 9 0 = pi / 2"
  by (simp_all add: spec_clock_angle_def spec_angle_degrees_def)

text \<open>
  C5. \<open>angleBetweenClockHands\<close> computes the specification's algorithm
  (\<open>spec_clock_angle\<close>: minute hand \<open>m \<times> 6\<close>, hour hand \<open>((h mod 12) + m / 60) \<times> 30\<close>,
  absolute difference, 360 minus it above 180, times \<open>\<pi> / 180\<close>) in binary64
  arithmetic: its result is a finite number within \<open>2\<^sup>-\<^sup>4\<^sup>7\<close> of the exact value. At
  hour 0 minute 0 it is 0, at hour 3 minute 0 \<^verbatim>\<open>Math.PI / 2\<close>, at hour 6 minute 0
  \<^verbatim>\<open>Math.PI\<close>, at hour 9 minute 0 \<^verbatim>\<open>Math.PI / 2\<close>; the exact values there are 0,
  \<open>\<pi> / 2\<close>, \<open>\<pi>\<close> and \<open>\<pi> / 2\<close> (\<open>spec_clock_angle_values\<close>).
\<close>

theorem angleBetweenClockHands_algorithm:
  "(\<exists>r. angleBetweenClockHands (Date t) = Fin r
      \<and> \<bar>of_rat r - spec_clock_angle (t div 3600000 mod 24) (t div 60000 mod 60)\<bar> \<le> 1 / 2 ^ 47)
   \<and> (t div 3600000 mod 24 = 0 \<and> t div 60000 mod 60 = 0
        \<longrightarrow> angleBetweenClockHands (Date t) = Fin 0)
   \<and> (t div 3600000 mod 24 = 3 \<and> t div 60000 mod 60 = 0
        \<longrightarrow> angleBetweenClockHands (Date t) = js_div Math_PI (Fin 2))
   \<and> (t div 3600000 mod 24 = 6 \<and> t div 60000 mod 60 = 0
        \<longrightarrow> angleBetweenClockHands (Date t) = Math_PI)
   \<and> (t div 3600000 mod 24 = 9 \<and> t div 60000 mod 60 = 0
        \<longrightarrow> angleBetweenClockHands (Date t) = js_div Math_PI (Fin 2))"
proof (intro conjI impI)
  show "\<exists>r. angleBetweenClockHands (Date t) = Fin r
      \<and> \<bar>of_rat r - spec_clock_angle (t div 3600000 mod 24) (t div 60000 mod 60)\<bar> \<le> 1 / 2 ^ 47"
    by (rule angleBetweenClockHands_error)
qed (simp_all only: angleBetweenClockHands_0_00 angleBetweenClockHands_3_00
    angleBetweenClockHands_6_00 angleBetweenClockHands_9_00)

theorem angleBetweenClockHands_algorithm_witness:
  "angleBetweenClockHands (Date 1457136000000) = Fin 0
   \<and> angleBetweenClockHands (Date 1459825200000) = js_div Math_PI (Fin 2)
   \<and> angleBetweenClockHands (Date 1459836000000) = Math_PI
   \<and> angleBetweenClockHands (Date 1459846800000) = js_div Math_PI (Fin 2)"
  using angleBetweenClockHands_algorithm [of 1457136000000]
    angleBetweenClockHands_algorithm [of 1459825200000]
    angleBetweenClockHands_algorithm [of 1459836000000]
    angleBetweenClockHands_algorithm [of 1459846800000]
  by simp


end
